theory Spec2Isabelle
  imports Main
begin

section \<open>Python values and exceptions\<close>

text \<open>
  The attributes of a user and the keyword arguments of the store are dynamically typed:
  a value is \<open>None\<close>, a string or an integer. \<open>truthy\<close> is Python's truth test, as
  used by \<open>not email\<close> and \<open>not user_id\<close>.
\<close>

datatype val = VNone | VStr string | VInt int

fun truthy :: "val \<Rightarrow> bool" where
  "truthy VNone = False"
| "truthy (VStr s) = (s \<noteq> [])"
| "truthy (VInt i) = (i \<noteq> 0)"

text \<open>The exceptions that the modelled functions raise or let through.\<close>

datatype error =
  InvalidRequestError | NoResultFound | ValueError | AttributeError | NameError
  | IntegrityError | OverflowError

section \<open>The user table (user.py, db.py)\<close>

text \<open>
  A row of table \<open>users\<close>: the five columns of class \<open>User\<close>. Column \<open>id\<close> is field
  \<open>uid\<close> here. A value is stored as it is given; what the schema refuses at a commit
  is \<open>commit_error\<close> below.
\<close>

record user =
  uid :: val
  email :: val
  hashed_password :: val
  session_id :: val
  reset_token :: val

text \<open>
  The store is the list of rows in insertion order. Class \<open>DB\<close> keeps one ORM session for
  its whole life, the objects it returns are the session's own, and every query flushes
  the session first; so an attribute set on a returned object is what every later query
  of the same \<open>DB\<close> sees, with or without \<open>commit\<close>. The model therefore writes
  \<open>setattr\<close> straight into the row.
\<close>

type_synonym db = "user list"

definition VALID_FIELDS :: "string list" where
  "VALID_FIELDS = [''id'', ''email'', ''hashed_password'', ''session_id'', ''reset_token'']"

definition getattr_user :: "user \<Rightarrow> string \<Rightarrow> val" where
  "getattr_user u k =
     (if k = ''id'' then uid u
      else if k = ''email'' then email u
      else if k = ''hashed_password'' then hashed_password u
      else if k = ''session_id'' then session_id u
      else if k = ''reset_token'' then reset_token u
      else VNone)"

definition setattr_user :: "user \<Rightarrow> string \<Rightarrow> val \<Rightarrow> user" where
  "setattr_user u k v =
     (if k = ''id'' then u\<lparr>uid := v\<rparr>
      else if k = ''email'' then u\<lparr>email := v\<rparr>
      else if k = ''hashed_password'' then u\<lparr>hashed_password := v\<rparr>
      else if k = ''session_id'' then u\<lparr>session_id := v\<rparr>
      else if k = ''reset_token'' then u\<lparr>reset_token := v\<rparr>
      else u)"

text \<open>
  The identifier of a new row: the table's integer primary key, one more than the
  largest identifier in the table, 1 in an empty table.
\<close>

fun ids_of :: "user list \<Rightarrow> int list" where
  "ids_of [] = []"
| "ids_of (u # us) = (case uid u of VInt i \<Rightarrow> i # ids_of us | _ \<Rightarrow> ids_of us)"

definition next_id :: "db \<Rightarrow> int" where
  "next_id d = (case ids_of d of [] \<Rightarrow> 1 | i # js \<Rightarrow> fold max js i + 1)"

text \<open>\<open>DB.add_user\<close>: returns \<open>None\<close> and adds nothing when either argument is falsy.\<close>

definition add_user :: "db \<Rightarrow> val \<Rightarrow> val \<Rightarrow> user option \<times> db" where
  "add_user d em hp =
     (if \<not> truthy em \<or> \<not> truthy hp then (None, d)
      else
        let u = \<lparr>uid = VInt (next_id d), email = em, hashed_password = hp,
                 session_id = VNone, reset_token = VNone\<rparr>
        in (Some u, d @ [u]))"

text \<open>
  \<open>DB.find_user_by\<close>: the keyword arguments are an association list in call order.
  \<open>filter_by(**kwargs).one()\<close> returns the row when exactly one row has every given
  value; no row and several rows both end in \<open>NoResultFound\<close>.
\<close>

definition matches :: "(string \<times> val) list \<Rightarrow> user \<Rightarrow> bool" where
  "matches kw u = list_all (\<lambda>(k, v). getattr_user u k = v) kw"

definition find_user_by :: "db \<Rightarrow> (string \<times> val) list \<Rightarrow> error + user" where
  "find_user_by d kw =
     (if kw = [] \<or> list_ex (\<lambda>(k, v). k \<notin> set VALID_FIELDS) kw then Inl InvalidRequestError
      else case filter (matches kw) d of
             [u] \<Rightarrow> Inr u
           | _ \<Rightarrow> Inl NoResultFound)"

text \<open>
  The schema of \<open>user.py\<close>: \<open>id\<close> is the integer primary key, \<open>email\<close> and
  \<open>hashed_password\<close> are strings and not nullable, \<open>session_id\<close> and \<open>reset_token\<close> are
  nullable strings. \<open>column_accepts\<close> says which value a column of that name holds; a
  name that is no column of the table accepts anything.
\<close>

definition column_accepts :: "string \<Rightarrow> val \<Rightarrow> bool" where
  "column_accepts k v =
     (if k = ''id'' then (case v of VInt n \<Rightarrow> - (2 ^ 63) \<le> n \<and> n < 2 ^ 63 | _ \<Rightarrow> False)
      else if k = ''email'' \<or> k = ''hashed_password'' then (case v of VStr s \<Rightarrow> True | _ \<Rightarrow> False)
      else if k = ''session_id'' \<or> k = ''reset_token'' then (case v of VInt n \<Rightarrow> False | _ \<Rightarrow> True)
      else True)"

text \<open>
  \<open>session.commit()\<close> writes the columns of the object that changed, \<open>u\<close> before and
  \<open>u'\<close> after the assignments. The write fails under the schema, and then nothing is
  written, when the new identifier is an integer beyond 64 bits (\<open>OverflowError\<close>), when
  the new identifier is \<open>None\<close> or the identifier of another row, and when the new email
  or the new hashed password is \<open>None\<close> (\<open>IntegrityError\<close>).
\<close>

definition commit_error :: "db \<Rightarrow> user \<Rightarrow> user \<Rightarrow> error option" where
  "commit_error d u u' =
     (if uid u' \<noteq> uid u \<and> (case uid u' of VInt n \<Rightarrow> n < - (2 ^ 63) \<or> 2 ^ 63 \<le> n | _ \<Rightarrow> False)
      then Some OverflowError
      else if uid u' \<noteq> uid u \<and> (uid u' = VNone \<or> uid u' \<in> set (map uid d))
        then Some IntegrityError
      else if email u' \<noteq> email u \<and> email u' = VNone then Some IntegrityError
      else if hashed_password u' \<noteq> hashed_password u \<and> hashed_password u' = VNone
        then Some IntegrityError
      else None)"

text \<open>
  \<open>DB.update_user\<close>: the loop checks and assigns key by key, so it stops at the first key
  outside \<open>VALID_FIELDS\<close> with the earlier keys already assigned, and raises before the
  commit. \<open>set_fields\<close> is the loop on the object found. When the loop ends normally
  \<open>session.commit()\<close> follows: it either fails and leaves the table as it was, or the
  object is back in its row, the only row whose identifier is \<open>user_id\<close>. The
  assignments that a raise before the commit leaves pending are written by the flush of
  the next query; the model takes them as written.
\<close>

fun set_fields :: "user \<Rightarrow> (string \<times> val) list \<Rightarrow> (error + unit) \<times> user" where
  "set_fields u [] = (Inr (), u)"
| "set_fields u ((k, v) # kw) =
     (if k \<notin> set VALID_FIELDS then (Inl ValueError, u)
      else set_fields (setattr_user u k v) kw)"

definition update_user :: "db \<Rightarrow> val \<Rightarrow> (string \<times> val) list \<Rightarrow> (error + unit) \<times> db" where
  "update_user d user_id kw =
     (case find_user_by d [(''id'', user_id)] of
        Inl e \<Rightarrow> (Inl e, d)
      | Inr u \<Rightarrow>
          (case set_fields u kw of
             (Inl e, u') \<Rightarrow> (Inl e, map (\<lambda>x. if uid x = user_id then u' else x) d)
           | (Inr _, u') \<Rightarrow>
               (case commit_error d u u' of
                  Some e \<Rightarrow> (Inl e, d)
                | None \<Rightarrow> (Inr (), map (\<lambda>x. if uid x = user_id then u' else x) d))))"

section \<open>The lifecycle manager (0x03-user_authentication_service/auth.py)\<close>

text \<open>
  The hasher and the token generator are the environment's: \<open>hashpw\<close> stands for
  \<open>_hash_password\<close> with the salt of this call, \<open>checkpw\<close> for \<open>bcrypt.checkpw\<close>, and
  \<open>uuid\<close> for the string that \<open>_generate_uuid()\<close> returns in this call. An email, a
  token or an identifier is any value.
\<close>

definition register_user :: "db \<Rightarrow> (string \<Rightarrow> string) \<Rightarrow> val \<Rightarrow> string \<Rightarrow> (error + user option) \<times> db" where
  "register_user d hashpw em password =
     (case find_user_by d [(''email'', em)] of
        Inr u \<Rightarrow> (Inl ValueError, d)
      | Inl NoResultFound \<Rightarrow>
          (case add_user d em (VStr (hashpw password)) of (r, d') \<Rightarrow> (Inr r, d'))
      | Inl e \<Rightarrow> (Inl e, d))"

text \<open>
  \<open>Auth.valid_login\<close>: the password is whatever the caller passes, \<open>None\<close> when the
  login form has no such field. \<open>password.encode\<close> and then
  \<open>user.hashed_password.encode\<close> need a string; on any other value they raise
  \<open>AttributeError\<close>. \<open>bcrypt.checkpw\<close> answers or raises itself, and only
  \<open>NoResultFound\<close> is caught.
\<close>

definition valid_login :: "db \<Rightarrow> (string \<Rightarrow> string \<Rightarrow> error + bool) \<Rightarrow> val \<Rightarrow> val \<Rightarrow> error + bool" where
  "valid_login d checkpw em password =
     (case find_user_by d [(''email'', em)] of
        Inl NoResultFound \<Rightarrow> Inr False
      | Inl e \<Rightarrow> Inl e
      | Inr u \<Rightarrow>
          (case password of
             VStr p \<Rightarrow>
               (case hashed_password u of
                  VStr h \<Rightarrow> checkpw p h
                | _ \<Rightarrow> Inl AttributeError)
           | _ \<Rightarrow> Inl AttributeError))"

text \<open>
  \<open>Auth.create_session\<close>: the \<open>except NoResultFound\<close> clause covers the lookup and the
  update alike.
\<close>

definition create_session :: "db \<Rightarrow> string \<Rightarrow> val \<Rightarrow> (error + string option) \<times> db" where
  "create_session d uuid em =
     (case find_user_by d [(''email'', em)] of
        Inl NoResultFound \<Rightarrow> (Inr None, d)
      | Inl e \<Rightarrow> (Inl e, d)
      | Inr u \<Rightarrow>
          (case update_user d (uid u) [(''session_id'', VStr uuid)] of
             (Inl NoResultFound, d') \<Rightarrow> (Inr None, d')
           | (Inl e, d') \<Rightarrow> (Inl e, d')
           | (Inr _, d') \<Rightarrow> (Inr (Some uuid), d')))"

text \<open>\<open>Auth.get_user_from_session_id\<close>: the email of the owner, or \<open>None\<close>.\<close>

definition get_user_from_session_id :: "db \<Rightarrow> val \<Rightarrow> error + val" where
  "get_user_from_session_id d sid =
     (if sid = VNone then Inr VNone
      else case find_user_by d [(''session_id'', sid)] of
             Inr u \<Rightarrow> Inr (email u)
           | Inl NoResultFound \<Rightarrow> Inr VNone
           | Inl e \<Rightarrow> Inl e)"

definition destroy_session :: "db \<Rightarrow> val \<Rightarrow> (error + unit) \<times> db" where
  "destroy_session d user_id =
     (case find_user_by d [(''id'', user_id)] of
        Inl NoResultFound \<Rightarrow> (Inr (), d)
      | Inl e \<Rightarrow> (Inl e, d)
      | Inr u \<Rightarrow>
          (case update_user d (uid u) [(''session_id'', VNone)] of
             (Inl NoResultFound, d') \<Rightarrow> (Inr (), d')
           | (Inl e, d') \<Rightarrow> (Inl e, d')
           | (Inr _, d') \<Rightarrow> (Inr (), d')))"

text \<open>
  \<open>Auth.get_reset_password_token\<close>: under its docstring the method has no implementation
  of it. What follows are the statements of an HTTP handler; the first one reads
  \<open>request\<close>, a name that module \<open>auth\<close> never binds, so the call ends in \<open>NameError\<close>
  before it reads or writes the store. It does not call \<open>_generate_uuid\<close> or
  \<open>update_user\<close>.
\<close>

definition get_reset_password_token :: "db \<Rightarrow> val \<Rightarrow> (error + string) \<times> db" where
  "get_reset_password_token d em = (Inl NameError, d)"

definition update_password :: "db \<Rightarrow> (string \<Rightarrow> string) \<Rightarrow> val \<Rightarrow> string \<Rightarrow> (error + unit) \<times> db" where
  "update_password d hashpw token password =
     (case find_user_by d [(''reset_token'', token)] of
        Inl NoResultFound \<Rightarrow> (Inl ValueError, d)
      | Inl e \<Rightarrow> (Inl e, d)
      | Inr u \<Rightarrow>
          (case update_user d (uid u)
                  [(''hashed_password'', VStr (hashpw password)), (''reset_token'', VNone)] of
             (Inl NoResultFound, d') \<Rightarrow> (Inl ValueError, d')
           | (Inl e, d') \<Rightarrow> (Inl e, d')
           | (Inr _, d') \<Rightarrow> (Inr (), d')))"

section \<open>The handler of POST /reset_password (app.py)\<close>

text \<open>
  The handler answers with a status and, on success, the email and the token. \<open>em\<close> is
  \<open>request.form.get('email')\<close>, \<open>None\<close> when the form has no such field. An exception
  of the manager is not caught.
\<close>

datatype response = Abort nat | Json200 val string

definition route_get_reset_password_token :: "db \<Rightarrow> string \<Rightarrow> val \<Rightarrow> (error + response) \<times> db" where
  "route_get_reset_password_token d uuid em =
     (case create_session d uuid em of
        (Inl e, d') \<Rightarrow> (Inl e, d')
      | (Inr None, d') \<Rightarrow> (Inr (Abort 403), d')
      | (Inr (Some s), d') \<Rightarrow>
          (if s = [] then (Inr (Abort 403), d')
           else case get_reset_password_token d' em of
                  (Inl e, d'') \<Rightarrow> (Inl e, d'')
                | (Inr token, d'') \<Rightarrow> (Inr (Json200 em token), d'')))"

section \<open>The class-level session map (0x02-Session_authentication, session_auth.py)\<close>

text \<open>
  \<open>SessionAuth.user_id_by_session_id\<close> is one dictionary shared by the class. The two
  methods return \<open>None\<close> for an argument that is falsy or not a string.
\<close>

type_synonym session_map = "string \<rightharpoonup> string"

definition SessionAuth_create_session :: "session_map \<Rightarrow> string \<Rightarrow> val \<Rightarrow> string option \<times> session_map" where
  "SessionAuth_create_session m uuid user_id =
     (case user_id of
        VStr s \<Rightarrow> if s = [] then (None, m) else (Some uuid, m(s \<mapsto> uuid))
      | _ \<Rightarrow> (None, m))"

definition SessionAuth_user_id_for_session_id :: "session_map \<Rightarrow> val \<Rightarrow> string option" where
  "SessionAuth_user_id_for_session_id m sid =
     (case sid of
        VStr s \<Rightarrow> if s = [] then None else m s
      | _ \<Rightarrow> None)"

section \<open>The stores that the manager builds\<close>

text \<open>
  \<open>store_inv\<close> collects what the schema and the manager maintain: identifiers are
  distinct (the primary key), emails are distinct, and every hashed password is a string.
  \<open>reachable\<close> are the stores that arise from the empty table of a new \<open>DB\<close> by calls
  of the manager and of the reset handler, with any arguments and any generated values.
\<close>

definition is_str :: "val \<Rightarrow> bool" where
  "is_str v = (case v of VStr s \<Rightarrow> True | _ \<Rightarrow> False)"

definition store_inv :: "db \<Rightarrow> bool" where
  "store_inv d \<longleftrightarrow>
     distinct (map uid d) \<and> distinct (map email d) \<and> list_all (\<lambda>u. is_str (hashed_password u)) d"

inductive reachable :: "db \<Rightarrow> bool" where
  init: "reachable []"
| register: "reachable d \<Longrightarrow> reachable (snd (register_user d hashpw em pw))"
| login: "reachable d \<Longrightarrow> reachable (snd (create_session d uuid em))"
| logout: "reachable d \<Longrightarrow> reachable (snd (destroy_session d user_id))"
| redeem: "reachable d \<Longrightarrow> reachable (snd (update_password d hashpw token pw))"
| reset_request: "reachable d \<Longrightarrow> reachable (snd (route_get_reset_password_token d uuid em))"

section \<open>Facts about the store\<close>

lemma valid_keys [simp]:
  "''id'' \<in> set VALID_FIELDS" "''email'' \<in> set VALID_FIELDS"
  "''hashed_password'' \<in> set VALID_FIELDS" "''session_id'' \<in> set VALID_FIELDS"
  "''reset_token'' \<in> set VALID_FIELDS"
  by (simp_all add: VALID_FIELDS_def)

lemma getattr_simps [simp]:
  "getattr_user u ''id'' = uid u"
  "getattr_user u ''email'' = email u"
  "getattr_user u ''hashed_password'' = hashed_password u"
  "getattr_user u ''session_id'' = session_id u"
  "getattr_user u ''reset_token'' = reset_token u"
  by (simp_all add: getattr_user_def)

lemma setattr_simps [simp]:
  "setattr_user u ''id'' v = u\<lparr>uid := v\<rparr>"
  "setattr_user u ''email'' v = u\<lparr>email := v\<rparr>"
  "setattr_user u ''hashed_password'' v = u\<lparr>hashed_password := v\<rparr>"
  "setattr_user u ''session_id'' v = u\<lparr>session_id := v\<rparr>"
  "setattr_user u ''reset_token'' v = u\<lparr>reset_token := v\<rparr>"
  by (simp_all add: setattr_user_def)

lemma matches_one: "matches [(k, v)] = (\<lambda>u. getattr_user u k = v)"
  by (rule ext) (simp add: matches_def)

lemma find_user_by_one:
  "k \<in> set VALID_FIELDS \<Longrightarrow>
   find_user_by d [(k, v)] =
     (case filter (\<lambda>u. getattr_user u k = v) d of [u] \<Rightarrow> Inr u | _ \<Rightarrow> Inl NoResultFound)"
  by (simp add: find_user_by_def matches_one)

lemma find_user_by_Inr_iff:
  "k \<in> set VALID_FIELDS \<Longrightarrow>
   find_user_by d [(k, v)] = Inr u \<longleftrightarrow> filter (\<lambda>x. getattr_user x k = v) d = [u]"
  by (auto simp add: find_user_by_one split: list.splits)

lemma find_user_by_Inl:
  "k \<in> set VALID_FIELDS \<Longrightarrow> find_user_by d [(k, v)] = Inl e \<Longrightarrow> e = NoResultFound"
  by (auto simp add: find_user_by_one split: list.splits)

lemma filter_single_mem: "filter P xs = [u] \<Longrightarrow> u \<in> set xs \<and> P u"
  by (metis filter_eq_ConsD in_set_conv_decomp)

lemma filter_single_unique: "filter P xs = [u] \<Longrightarrow> x \<in> set xs \<Longrightarrow> P x \<Longrightarrow> x = u"
proof -
  assume a: "filter P xs = [u]" and b: "x \<in> set xs" "P x"
  from b have "x \<in> set (filter P xs)" by simp
  then show ?thesis unfolding a by simp
qed

lemma getattr_setattr_other: "c \<noteq> k \<Longrightarrow> getattr_user (setattr_user u k v) c = getattr_user u c"
  by (auto simp add: getattr_user_def setattr_user_def)

lemma getattr_setattr_same: "k \<in> set VALID_FIELDS \<Longrightarrow> getattr_user (setattr_user u k v) k = v"
  by (auto simp add: getattr_user_def setattr_user_def VALID_FIELDS_def)

lemma set_fields_valid:
  "\<forall>k\<in>fst ` set kw. k \<in> set VALID_FIELDS \<Longrightarrow> fst (set_fields u kw) = Inr ()"
  by (induction u kw rule: set_fields.induct) auto

lemma set_fields_invalid:
  "\<exists>k\<in>fst ` set kw. k \<notin> set VALID_FIELDS \<Longrightarrow> fst (set_fields u kw) = Inl ValueError"
  by (induction u kw rule: set_fields.induct) auto

lemma set_fields_frame:
  "c \<notin> fst ` set kw \<Longrightarrow> getattr_user (snd (set_fields u kw)) c = getattr_user u c"
  by (induction u kw rule: set_fields.induct) (auto simp add: getattr_setattr_other)

lemma set_fields_assigned:
  "distinct (map fst kw) \<Longrightarrow> \<forall>k\<in>fst ` set kw. k \<in> set VALID_FIELDS \<Longrightarrow> (k, v) \<in> set kw \<Longrightarrow>
   getattr_user (snd (set_fields u kw)) k = v"
proof (induction u kw rule: set_fields.induct)
  case (1 u)
  then show ?case by simp
next
  case (2 u k' v' kw)
  show ?case
  proof (cases "(k, v) = (k', v')")
    case True
    with 2 have "k \<notin> fst ` set kw" by auto
    with 2 True show ?thesis by (simp add: set_fields_frame getattr_setattr_same)
  next
    case False
    with 2 show ?thesis by auto
  qed
qed

lemma update_user_rejected:
  assumes "find_user_by d [(''id'', i)] = Inr u" and "\<exists>k\<in>fst ` set kw. k \<notin> set VALID_FIELDS"
  shows "update_user d i kw =
     (Inl ValueError, map (\<lambda>x. if uid x = i then snd (set_fields u kw) else x) d)"
proof -
  obtain r u' where sf: "set_fields u kw = (r, u')" by (cases "set_fields u kw")
  from assms(2) have "fst (set_fields u kw) = Inl ValueError" by (rule set_fields_invalid)
  with sf have "r = Inl ValueError" by simp
  with assms(1) sf show ?thesis by (simp add: update_user_def)
qed

lemma update_user_committed:
  assumes "find_user_by d [(''id'', i)] = Inr u" and "\<forall>k\<in>fst ` set kw. k \<in> set VALID_FIELDS"
    and "commit_error d u (snd (set_fields u kw)) = None"
  shows "update_user d i kw =
     (Inr (), map (\<lambda>x. if uid x = i then snd (set_fields u kw) else x) d)"
proof -
  obtain r u' where sf: "set_fields u kw = (r, u')" by (cases "set_fields u kw")
  from assms(2) have "fst (set_fields u kw) = Inr ()" by (rule set_fields_valid)
  with sf have "r = Inr ()" by simp
  with assms(1,3) sf show ?thesis by (simp add: update_user_def)
qed

lemma update_user_refused:
  assumes "find_user_by d [(''id'', i)] = Inr u" and "\<forall>k\<in>fst ` set kw. k \<in> set VALID_FIELDS"
    and "commit_error d u (snd (set_fields u kw)) = Some e"
  shows "update_user d i kw = (Inl e, d)"
proof -
  obtain r u' where sf: "set_fields u kw = (r, u')" by (cases "set_fields u kw")
  from assms(2) have "fst (set_fields u kw) = Inr ()" by (rule set_fields_valid)
  with sf have "r = Inr ()" by simp
  with assms(1,3) sf show ?thesis by (simp add: update_user_def)
qed

lemma commit_error_none:
  assumes "uid u' \<noteq> uid u \<Longrightarrow> column_accepts ''id'' (uid u') \<and> uid u' \<notin> uid ` set d"
    and "email u' \<noteq> email u \<Longrightarrow> column_accepts ''email'' (email u')"
    and "hashed_password u' \<noteq> hashed_password u \<Longrightarrow>
         column_accepts ''hashed_password'' (hashed_password u')"
  shows "commit_error d u u' = None"
proof -
  have ident: "uid u' = uid u \<or>
      ((\<exists>n. uid u' = VInt n \<and> - (2 ^ 63) \<le> n \<and> n < 2 ^ 63) \<and> uid u' \<notin> set (map uid d))"
  proof (cases "uid u' = uid u")
    case True
    then show ?thesis by simp
  next
    case False
    with assms(1) have "column_accepts ''id'' (uid u')" and "uid u' \<notin> uid ` set d" by simp_all
    then show ?thesis by (cases "uid u'") (simp_all add: column_accepts_def)
  qed
  have mail: "email u' = email u \<or> email u' \<noteq> VNone"
  proof (cases "email u' = email u")
    case True
    then show ?thesis by simp
  next
    case False
    with assms(2) have "column_accepts ''email'' (email u')" by simp
    then show ?thesis by (cases "email u'") (simp_all add: column_accepts_def)
  qed
  have hash: "hashed_password u' = hashed_password u \<or> hashed_password u' \<noteq> VNone"
  proof (cases "hashed_password u' = hashed_password u")
    case True
    then show ?thesis by simp
  next
    case False
    with assms(3) have "column_accepts ''hashed_password'' (hashed_password u')" by simp
    then show ?thesis by (cases "hashed_password u'") (simp_all add: column_accepts_def)
  qed
  from ident mail hash show ?thesis by (auto simp add: commit_error_def)
qed

lemma set_fields_changed:
  assumes "distinct (map fst kw)" and "\<forall>k\<in>fst ` set kw. k \<in> set VALID_FIELDS"
    and "getattr_user (snd (set_fields u kw)) c \<noteq> getattr_user u c"
  shows "(c, getattr_user (snd (set_fields u kw)) c) \<in> set kw"
proof -
  from assms(3) have "c \<in> fst ` set kw" using set_fields_frame [of c kw u] by blast
  then obtain v where v: "(c, v) \<in> set kw" by auto
  with assms(1,2) have "getattr_user (snd (set_fields u kw)) c = v"
    by (rule set_fields_assigned)
  with v show ?thesis by simp
qed

lemma update_user_missing:
  "find_user_by d [(''id'', i)] = Inl e \<Longrightarrow> update_user d i kw = (Inl e, d)"
  by (simp add: update_user_def)

lemma find_by_id:
  "find_user_by d [(''id'', v)] = Inr u \<longleftrightarrow> filter (\<lambda>x. uid x = v) d = [u]"
  using find_user_by_Inr_iff [of "''id''" d v u] by simp

lemma find_by_email:
  "find_user_by d [(''email'', v)] = Inr u \<longleftrightarrow> filter (\<lambda>x. email x = v) d = [u]"
  using find_user_by_Inr_iff [of "''email''" d v u] by simp

lemma find_by_session_id:
  "find_user_by d [(''session_id'', v)] = Inr u \<longleftrightarrow> filter (\<lambda>x. session_id x = v) d = [u]"
  using find_user_by_Inr_iff [of "''session_id''" d v u] by simp

lemma find_by_reset_token:
  "find_user_by d [(''reset_token'', v)] = Inr u \<longleftrightarrow> filter (\<lambda>x. reset_token x = v) d = [u]"
  using find_user_by_Inr_iff [of "''reset_token''" d v u] by simp

lemma find_user_by_none:
  "k \<in> set VALID_FIELDS \<Longrightarrow> filter (\<lambda>x. getattr_user x k = v) d = [] \<Longrightarrow>
   find_user_by d [(k, v)] = Inl NoResultFound"
  by (simp add: find_user_by_one)

lemma find_by_id_cases:
  obtains (found) u where "filter (\<lambda>x. uid x = i) d = [u]"
  | (missing) "find_user_by d [(''id'', i)] = Inl NoResultFound"
proof (cases "find_user_by d [(''id'', i)]")
  case (Inl e)
  then have "e = NoResultFound" by (intro find_user_by_Inl [of "''id''" d i e]) simp_all
  with Inl missing show ?thesis by simp
next
  case (Inr u)
  with found show ?thesis by (simp add: find_by_id)
qed

lemma distinct_filter_single:
  "distinct (map f d) \<Longrightarrow> u \<in> set d \<Longrightarrow> filter (\<lambda>x. f x = f u) d = [u]"
proof (induction d)
  case Nil
  then show ?case by simp
next
  case (Cons a d)
  show ?case
  proof (cases "a = u")
    case True
    with Cons.prems have "f u \<notin> f ` set d" by simp
    then have "\<forall>x\<in>set d. f x \<noteq> f u" by (metis imageI)
    then have "filter (\<lambda>x. f x = f u) d = []" by (simp add: filter_empty_conv)
    with True show ?thesis by simp
  next
    case False
    with Cons.prems have "u \<in> set d" "f a \<noteq> f u" by auto
    with Cons show ?thesis by simp
  qed
qed

lemma distinct_filter_le1:
  "distinct (map f d) \<Longrightarrow> filter (\<lambda>x. f x = a) d = [] \<or> (\<exists>u. filter (\<lambda>x. f x = a) d = [u])"
proof (cases "\<exists>u\<in>set d. f u = a")
  case True
  then obtain u where "u \<in> set d" "f u = a" by blast
  moreover assume "distinct (map f d)"
  ultimately show ?thesis using distinct_filter_single [of f d u] by auto
next
  case False
  then show ?thesis by (simp add: filter_empty_conv)
qed

text \<open>Replacing the rows that satisfy Q by one row.\<close>

lemma filter_replace_none:
  "\<forall>x\<in>set d. P x \<longrightarrow> Q x \<Longrightarrow> \<not> P u' \<Longrightarrow>
   filter P (map (\<lambda>x. if Q x then u' else x) d) = []"
  by (induction d) auto

lemma filter_replace_single:
  "filter Q d = [u] \<Longrightarrow> \<forall>x\<in>set d. P x \<longrightarrow> Q x \<Longrightarrow> P u' \<Longrightarrow>
   filter P (map (\<lambda>x. if Q x then u' else x) d) = [u']"
proof (induction d)
  case Nil
  then show ?case by simp
next
  case (Cons a d)
  show ?case
  proof (cases "Q a")
    case True
    with Cons.prems(1) have rest: "filter Q d = []" by simp
    then have "\<forall>x\<in>set d. \<not> Q x" by (simp add: filter_empty_conv)
    with Cons.prems(2) have "\<forall>x\<in>set d. \<not> P x" by auto
    then have "filter P (map (\<lambda>x. if Q x then u' else x) d) = []"
      using rest by (induction d) auto
    with True Cons.prems(3) show ?thesis by simp
  next
    case False
    with Cons.prems have "filter Q d = [u]" "\<not> P a" by auto
    with Cons False show ?thesis by simp
  qed
qed

lemma filter_replace_same:
  "filter Q d = [u] \<Longrightarrow> Q u' \<Longrightarrow> filter Q (map (\<lambda>x. if Q x then u' else x) d) = [u']"
  by (rule filter_replace_single) auto

lemma map_replace_id:
  "filter Q d = [u] \<Longrightarrow> map (\<lambda>x. if Q x then u else x) d = d"
proof -
  assume a: "filter Q d = [u]"
  have "\<forall>x\<in>set d. Q x \<longrightarrow> x = u" using filter_single_unique [OF a] by blast
  then show ?thesis by (induction d) auto
qed

lemma map_replace_twice:
  "Q u' \<Longrightarrow> map (\<lambda>x. if Q x then u' else x) (map (\<lambda>x. if Q x then u' else x) d)
     = map (\<lambda>x. if Q x then u' else x) d"
  by (induction d) auto

lemma update_user_session_id:
  assumes "filter (\<lambda>x. uid x = i) d = [u]"
  shows "update_user d i [(''session_id'', s)] =
     (Inr (), map (\<lambda>x. if uid x = i then u\<lparr>session_id := s\<rparr> else x) d)"
proof -
  from assms have found: "find_user_by d [(''id'', i)] = Inr u" by (simp add: find_by_id)
  have "commit_error d u (snd (set_fields u [(''session_id'', s)])) = None"
    by (rule commit_error_none) simp_all
  with found have "update_user d i [(''session_id'', s)] =
      (Inr (), map (\<lambda>x. if uid x = i then snd (set_fields u [(''session_id'', s)]) else x) d)"
    by (intro update_user_committed) simp_all
  then show ?thesis by simp
qed

lemma update_user_redeem:
  assumes "filter (\<lambda>x. uid x = i) d = [u]"
  shows "update_user d i [(''hashed_password'', VStr h), (''reset_token'', t)] =
     (Inr (), map (\<lambda>x. if uid x = i then u\<lparr>hashed_password := VStr h, reset_token := t\<rparr> else x) d)"
proof -
  let ?kw = "[(''hashed_password'', VStr h), (''reset_token'', t)]"
  from assms have found: "find_user_by d [(''id'', i)] = Inr u" by (simp add: find_by_id)
  have "commit_error d u (snd (set_fields u ?kw)) = None"
    by (rule commit_error_none) (simp_all add: column_accepts_def)
  with found have "update_user d i ?kw =
      (Inr (), map (\<lambda>x. if uid x = i then snd (set_fields u ?kw) else x) d)"
    by (intro update_user_committed) simp_all
  then show ?thesis by simp
qed

lemma create_session_found:
  assumes "filter (\<lambda>x. email x = em) d = [u]" and "filter (\<lambda>x. uid x = uid u) d = [u]"
  shows "create_session d T em =
     (Inr (Some T), map (\<lambda>x. if uid x = uid u then u\<lparr>session_id := VStr T\<rparr> else x) d)"
  using assms by (simp add: create_session_def find_by_email [THEN iffD2] update_user_session_id)

lemma create_session_unknown:
  "filter (\<lambda>x. email x = em) d = [] \<Longrightarrow> create_session d T em = (Inr None, d)"
  by (simp add: create_session_def find_user_by_none)

lemma resolve_found:
  "sid \<noteq> VNone \<Longrightarrow> filter (\<lambda>x. session_id x = sid) d = [u] \<Longrightarrow>
   get_user_from_session_id d sid = Inr (email u)"
  by (simp add: get_user_from_session_id_def find_by_session_id [THEN iffD2])

lemma resolve_unknown:
  "filter (\<lambda>x. session_id x = sid) d = [] \<Longrightarrow> get_user_from_session_id d sid = Inr VNone"
  by (simp add: get_user_from_session_id_def find_user_by_none)

lemma destroy_session_found:
  "filter (\<lambda>x. uid x = i) d = [u] \<Longrightarrow>
   destroy_session d i = (Inr (), map (\<lambda>x. if uid x = i then u\<lparr>session_id := VNone\<rparr> else x) d)"
proof -
  assume a: "filter (\<lambda>x. uid x = i) d = [u]"
  then have "uid u = i" using filter_single_mem [of "\<lambda>x. uid x = i" d u] by simp
  with a show ?thesis
    by (simp add: destroy_session_def find_by_id [THEN iffD2] update_user_session_id)
qed

lemma destroy_session_missing:
  "find_user_by d [(''id'', i)] = Inl NoResultFound \<Longrightarrow> destroy_session d i = (Inr (), d)"
  by (simp add: destroy_session_def)

lemma update_password_found:
  assumes "filter (\<lambda>x. reset_token x = tok) d = [u]" and "filter (\<lambda>x. uid x = uid u) d = [u]"
  shows "update_password d hashpw tok pw =
     (Inr (), map (\<lambda>x. if uid x = uid u
                        then u\<lparr>hashed_password := VStr (hashpw pw), reset_token := VNone\<rparr>
                        else x) d)"
  using assms by (simp add: update_password_def find_by_reset_token [THEN iffD2] update_user_redeem)

lemma update_password_unknown:
  "filter (\<lambda>x. reset_token x = tok) d = [] \<Longrightarrow>
   update_password d hashpw tok pw = (Inl ValueError, d)"
  by (simp add: update_password_def find_user_by_none)

lemma valid_login_found:
  "filter (\<lambda>x. email x = em) d = [u] \<Longrightarrow> hashed_password u = VStr h \<Longrightarrow>
   valid_login d checkpw em (VStr p) = checkpw p h"
  by (simp add: valid_login_def find_by_email [THEN iffD2])

lemma valid_login_unknown:
  "filter (\<lambda>x. email x = em) d = [] \<Longrightarrow> valid_login d checkpw em password = Inr False"
  by (simp add: valid_login_def find_user_by_none)

lemma register_user_exists:
  "filter (\<lambda>x. email x = em) d = [u] \<Longrightarrow> register_user d hashpw em pw = (Inl ValueError, d)"
  by (simp add: register_user_def find_by_email [THEN iffD2])

lemma register_user_new:
  "filter (\<lambda>x. email x = em) d = [] \<Longrightarrow>
   register_user d hashpw em pw =
     (Inr (fst (add_user d em (VStr (hashpw pw)))), snd (add_user d em (VStr (hashpw pw))))"
  by (simp add: register_user_def find_user_by_none split: prod.splits)

lemma add_user_added:
  "truthy em \<Longrightarrow> truthy hp \<Longrightarrow>
   add_user d em hp =
     (Some \<lparr>uid = VInt (next_id d), email = em, hashed_password = hp,
            session_id = VNone, reset_token = VNone\<rparr>,
      d @ [\<lparr>uid = VInt (next_id d), email = em, hashed_password = hp,
             session_id = VNone, reset_token = VNone\<rparr>])"
  by (simp add: add_user_def Let_def)

section \<open>Every reachable store satisfies the invariant\<close>

text \<open>
  A new row gets an identifier that no row has, and the updates of the manager change
  neither identifiers nor emails.
\<close>

lemma fold_max_init: "(i::int) \<le> fold max js i"
proof (induction js arbitrary: i)
  case Nil
  show ?case by simp
next
  case (Cons j js)
  have "max j i \<le> fold max js (max j i)" by (rule Cons.IH)
  then show ?case by simp
qed

lemma fold_max_mem: "x \<in> set js \<Longrightarrow> x \<le> fold max js (i::int)"
proof (induction js arbitrary: i)
  case Nil
  then show ?case by simp
next
  case (Cons j js)
  show ?case
  proof (cases "x = j")
    case True
    have "max j i \<le> fold max js (max j i)" by (rule fold_max_init)
    with True show ?thesis by simp
  next
    case False
    with Cons.prems have "x \<in> set js" by simp
    then show ?thesis using Cons.IH [of "max j i"] by simp
  qed
qed

lemma fold_max_ge: "x \<in> set (i # js) \<Longrightarrow> x \<le> fold max js (i::int)"
  using fold_max_init [of i js] fold_max_mem [of x js i] by auto

lemma ids_of_mem: "u \<in> set d \<Longrightarrow> uid u = VInt i \<Longrightarrow> i \<in> set (ids_of d)"
  by (induction d) (auto split: val.splits)

lemma next_id_fresh: "VInt (next_id d) \<notin> uid ` set d"
proof
  assume "VInt (next_id d) \<in> uid ` set d"
  then obtain u where "u \<in> set d" "uid u = VInt (next_id d)" by auto
  then have mem: "next_id d \<in> set (ids_of d)" by (rule ids_of_mem)
  then obtain i js where ij: "ids_of d = i # js" by (cases "ids_of d") auto
  with mem have "next_id d \<le> fold max js i" using fold_max_ge [of "next_id d" i js] by simp
  with ij show False by (simp add: next_id_def)
qed

lemma store_inv_empty: "store_inv []"
  by (simp add: store_inv_def)

lemma store_inv_replace:
  assumes "store_inv d" and "filter (\<lambda>x. uid x = i) d = [u]"
    and "uid u' = i" and "email u' = email u" and "is_str (hashed_password u')"
  shows "store_inv (map (\<lambda>x. if uid x = i then u' else x) d)"
proof -
  let ?f = "\<lambda>x. if uid x = i then u' else x"
  have only: "\<forall>x\<in>set d. uid x = i \<longrightarrow> x = u"
    using filter_single_unique [OF assms(2)] by blast
  have ids: "map uid (map ?f d) = map uid d"
    using assms(3) by (induction d) auto
  have emails: "map email (map ?f d) = map email d"
    using only assms(4) by (induction d) auto
  have hashes: "list_all (\<lambda>u. is_str (hashed_password u)) (map ?f d)"
    using assms(1,5) by (auto simp add: store_inv_def list_all_iff)
  from assms(1) have "distinct (map uid d)" and "distinct (map email d)"
    by (simp_all add: store_inv_def)
  then have "distinct (map uid (map ?f d))" and "distinct (map email (map ?f d))"
    by (simp_all only: ids emails)
  with hashes show ?thesis unfolding store_inv_def by blast
qed

lemma store_inv_byid: "store_inv d \<Longrightarrow> u \<in> set d \<Longrightarrow> filter (\<lambda>x. uid x = uid u) d = [u]"
  by (simp add: store_inv_def distinct_filter_single)

lemma store_inv_register_user:
  assumes "store_inv d"
  shows "store_inv (snd (register_user d hashpw em pw))"
proof -
  from assms have "distinct (map email d)" by (simp add: store_inv_def)
  from distinct_filter_le1 [OF this, of em]
  consider (none) "filter (\<lambda>x. email x = em) d = []"
    | (one) u where "filter (\<lambda>x. email x = em) d = [u]" by blast
  then show ?thesis
  proof cases
    case none
    then have new_email: "em \<notin> email ` set d" by (auto simp add: filter_empty_conv)
    show ?thesis
    proof (cases "truthy em \<and> truthy (VStr (hashpw pw))")
      case True
      then have "snd (register_user d hashpw em pw) =
          d @ [\<lparr>uid = VInt (next_id d), email = em, hashed_password = VStr (hashpw pw),
                session_id = VNone, reset_token = VNone\<rparr>]"
        using none by (simp add: register_user_new add_user_added)
      with assms new_email next_id_fresh [of d] show ?thesis
        by (simp add: store_inv_def is_str_def)
    next
      case False
      then have "snd (register_user d hashpw em pw) = d"
        using none by (auto simp add: register_user_new add_user_def)
      with assms show ?thesis by simp
    qed
  next
    case one
    with assms show ?thesis by (simp add: register_user_exists)
  qed
qed

lemma store_inv_create_session:
  assumes "store_inv d"
  shows "store_inv (snd (create_session d T em))"
proof -
  from assms have "distinct (map email d)" by (simp add: store_inv_def)
  from distinct_filter_le1 [OF this, of em]
  consider (none) "filter (\<lambda>x. email x = em) d = []"
    | (one) u where "filter (\<lambda>x. email x = em) d = [u]" by blast
  then show ?thesis
  proof cases
    case none
    with assms show ?thesis by (simp add: create_session_unknown)
  next
    case one
    then have mem: "u \<in> set d" using filter_single_mem [OF one] by simp
    have byid: "filter (\<lambda>x. uid x = uid u) d = [u]"
      using assms mem by (rule store_inv_byid)
    have "is_str (hashed_password u)"
      using assms mem by (simp add: store_inv_def list_all_iff)
    then have "store_inv (map (\<lambda>x. if uid x = uid u then u\<lparr>session_id := VStr T\<rparr> else x) d)"
      by (intro store_inv_replace [OF assms byid]) simp_all
    then show ?thesis by (simp add: create_session_found [OF one byid])
  qed
qed

lemma store_inv_destroy_session:
  assumes "store_inv d"
  shows "store_inv (snd (destroy_session d i))"
proof (cases rule: find_by_id_cases [of i d])
  case (found u)
  then have mem: "u \<in> set d" and idu: "uid u = i"
    using filter_single_mem [OF found] by simp_all
  have "is_str (hashed_password u)"
    using assms mem by (simp add: store_inv_def list_all_iff)
  then have "store_inv (map (\<lambda>x. if uid x = i then u\<lparr>session_id := VNone\<rparr> else x) d)"
    by (intro store_inv_replace [OF assms found]) (simp_all add: idu)
  then show ?thesis by (simp add: destroy_session_found [OF found])
next
  case missing
  with assms show ?thesis by (simp add: destroy_session_missing)
qed

lemma store_inv_update_password:
  assumes "store_inv d"
  shows "store_inv (snd (update_password d hashpw tok pw))"
proof (cases "find_user_by d [(''reset_token'', tok)]")
  case (Inl e)
  then have "e = NoResultFound" by (intro find_user_by_Inl [of "''reset_token''" d tok e]) simp_all
  with Inl have "update_password d hashpw tok pw = (Inl ValueError, d)"
    by (simp add: update_password_def)
  with assms show ?thesis by simp
next
  case (Inr u)
  then have bytok: "filter (\<lambda>x. reset_token x = tok) d = [u]" by (simp add: find_by_reset_token)
  then have mem: "u \<in> set d" using filter_single_mem [OF bytok] by simp
  have byid: "filter (\<lambda>x. uid x = uid u) d = [u]"
    using assms mem by (rule store_inv_byid)
  have "store_inv (map (\<lambda>x. if uid x = uid u
            then u\<lparr>hashed_password := VStr (hashpw pw), reset_token := VNone\<rparr> else x) d)"
    by (intro store_inv_replace [OF assms byid]) (simp_all add: is_str_def)
  then show ?thesis by (simp add: update_password_found [OF bytok byid])
qed

lemma route_rows:
  "snd (route_get_reset_password_token d T em) = snd (create_session d T em)"
  by (simp add: route_get_reset_password_token_def get_reset_password_token_def
      split: prod.splits sum.splits option.splits)

lemma reachable_store_inv: "reachable d \<Longrightarrow> store_inv d"
proof (induction rule: reachable.induct)
  case init
  show ?case by (rule store_inv_empty)
next
  case (register d hashpw em pw)
  then show ?case by (simp add: store_inv_register_user)
next
  case (login d uuid em)
  then show ?case by (simp add: store_inv_create_session)
next
  case (logout d user_id)
  then show ?case by (simp add: store_inv_destroy_session)
next
  case (redeem d hashpw token pw)
  then show ?case by (simp add: store_inv_update_password)
next
  case (reset_request d uuid em)
  then show ?case by (simp add: route_rows store_inv_create_session)
qed

section \<open>Issuing a reset token\<close>

text \<open>
  Claim C1. For a registered email, \<open>Auth.get_reset_password_token\<close> is to generate a
  fresh token, store it in the user's \<open>reset_token\<close> field and return it, and to raise
  \<open>ValueError\<close> for an unknown email. The method as written does neither: called with
  the email of the one registered user, it ends in \<open>NameError\<close>, returns no token, and
  the user's \<open>reset_token\<close> is still \<open>None\<close>.
\<close>

theorem get_reset_password_token_no_token:
  "get_reset_password_token
     [\<lparr>uid = VInt 1, email = VStr ''a@x.com'', hashed_password = VStr ''h1'',
       session_id = VNone, reset_token = VNone\<rparr>] (VStr ''a@x.com'')
   = (Inl NameError,
      [\<lparr>uid = VInt 1, email = VStr ''a@x.com'', hashed_password = VStr ''h1'',
        session_id = VNone, reset_token = VNone\<rparr>])"
  by (simp add: get_reset_password_token_def)

section \<open>The class-level session map: create, then look up\<close>

text \<open>
  Claim C2. The class dictionary is to map session identifiers to user identifiers, so
  that \<open>user_id_for_session_id\<close> of the token that \<open>create_session\<close> returned gives
  the user back. In the code, after \<open>create_session\<close> for user \<open>u1\<close> has returned token
  \<open>T\<close>, the dictionary holds \<open>T\<close> under the key \<open>u1\<close>, not \<open>u1\<close> under the key
  \<open>T\<close>: looking the token up finds nothing, and looking the user identifier up returns the
  token.
\<close>

theorem SessionAuth_lookup_after_create:
  "SessionAuth_create_session Map.empty ''T'' (VStr ''u1'') = (Some ''T'', [''u1'' \<mapsto> ''T''])
   \<and> SessionAuth_user_id_for_session_id [''u1'' \<mapsto> ''T''] (VStr ''T'') = None
   \<and> SessionAuth_user_id_for_session_id [''u1'' \<mapsto> ''T''] (VStr ''u1'') = Some ''T''"
  by (simp add: SessionAuth_create_session_def SessionAuth_user_id_for_session_id_def)

section \<open>Updating a row\<close>

text \<open>
  Claim C3. An update whose changes contain a key outside the whitelist is to be rejected
  before any field is written. In the code the check and the assignment share one loop:
  with a valid key \<open>email\<close> before the invalid key \<open>is_admin\<close>, the call raises
  \<open>ValueError\<close> and the row keeps the new email.
\<close>

theorem update_user_partial_write:
  "update_user
     [\<lparr>uid = VInt 1, email = VStr ''a@x.com'', hashed_password = VStr ''h1'',
       session_id = VNone, reset_token = VNone\<rparr>]
     (VInt 1) [(''email'', VStr ''b@x.com''), (''is_admin'', VInt 1)]
   = (Inl ValueError,
      [\<lparr>uid = VInt 1, email = VStr ''b@x.com'', hashed_password = VStr ''h1'',
        session_id = VNone, reset_token = VNone\<rparr>])"
  by (simp add: update_user_def find_user_by_def matches_def VALID_FIELDS_def
      getattr_user_def setattr_user_def)

text \<open>
  Claim C4, as stated, fails: \<open>id\<close> is one of \<open>VALID_FIELDS\<close>, and an update naming it
  is accepted and changes the identifier of the row from 1 to 7.
\<close>

theorem update_user_changes_id:
  "''id'' \<in> set VALID_FIELDS \<and>
   update_user
     [\<lparr>uid = VInt 1, email = VStr ''a@x.com'', hashed_password = VStr ''h1'',
       session_id = VNone, reset_token = VNone\<rparr>]
     (VInt 1) [(''id'', VInt 7)]
   = (Inr (),
      [\<lparr>uid = VInt 7, email = VStr ''a@x.com'', hashed_password = VStr ''h1'',
        session_id = VNone, reset_token = VNone\<rparr>])"
  by (simp add: update_user_def find_user_by_def matches_def VALID_FIELDS_def
      getattr_user_def setattr_user_def commit_error_def)

text \<open>
  Claim C4, amended. The whitelist of \<open>DB.update_user\<close> is \<open>id\<close>, \<open>email\<close>,
  \<open>hashed_password\<close>, \<open>session_id\<close>, \<open>reset_token\<close>. Take an existing user and changes
  with distinct keys whose values the schema accepts in their columns, a new identifier
  being the user's own or one that no row has. Then the call raises \<open>ValueError\<close> exactly
  when some key is outside the whitelist and returns normally otherwise; every other row
  stays as it is, and so does every field of the target row that the changes do not
  name; when all keys are in the whitelist, each named field, the identifier among them,
  holds the value given for it.
\<close>

theorem update_user_whitelist:
  assumes "find_user_by d [(''id'', user_id)] = Inr u" and "distinct (map fst kw)"
    and "\<forall>(k, v)\<in>set kw. column_accepts k v"
    and "\<forall>v. (''id'', v) \<in> set kw \<longrightarrow> v = user_id \<or> v \<notin> uid ` set d"
  shows "set VALID_FIELDS = {''id'', ''email'', ''hashed_password'', ''session_id'', ''reset_token''}
    \<and> fst (update_user d user_id kw) =
        (if \<forall>k\<in>fst ` set kw. k \<in> set VALID_FIELDS then Inr () else Inl ValueError)
    \<and> (\<exists>u'. snd (update_user d user_id kw) = map (\<lambda>x. if uid x = user_id then u' else x) d
          \<and> (\<forall>c. c \<notin> fst ` set kw \<longrightarrow> getattr_user u' c = getattr_user u c)
          \<and> ((\<forall>k\<in>fst ` set kw. k \<in> set VALID_FIELDS) \<longrightarrow>
               (\<forall>(k, v)\<in>set kw. getattr_user u' k = v)))"
proof -
  have whitelist: "set VALID_FIELDS = {''id'', ''email'', ''hashed_password'', ''session_id'', ''reset_token''}"
    by (simp add: VALID_FIELDS_def)
  from assms(1) have "filter (\<lambda>x. uid x = user_id) d = [u]" by (simp add: find_by_id)
  then have idu: "uid u = user_id"
    using filter_single_mem [of "\<lambda>x. uid x = user_id" d u] by simp
  let ?u' = "snd (set_fields u kw)"
  let ?d' = "map (\<lambda>x. if uid x = user_id then ?u' else x) d"
  have result: "update_user d user_id kw =
      (if \<forall>k\<in>fst ` set kw. k \<in> set VALID_FIELDS then Inr () else Inl ValueError, ?d')"
  proof (cases "\<forall>k\<in>fst ` set kw. k \<in> set VALID_FIELDS")
    case True
    have changed: "(c, getattr_user ?u' c) \<in> set kw"
      if "getattr_user ?u' c \<noteq> getattr_user u c" for c
      using assms(2) True that by (rule set_fields_changed)
    have accepted: "column_accepts c (getattr_user ?u' c)"
      if "getattr_user ?u' c \<noteq> getattr_user u c" for c
      using changed [OF that] assms(3) by blast
    have "commit_error d u ?u' = None"
    proof (rule commit_error_none)
      assume new: "uid ?u' \<noteq> uid u"
      then have "(''id'', uid ?u') \<in> set kw" using changed [of "''id''"] by simp
      with assms(4) new idu have "uid ?u' \<notin> uid ` set d" by blast
      moreover have "column_accepts ''id'' (uid ?u')" using accepted [of "''id''"] new by simp
      ultimately show "column_accepts ''id'' (uid ?u') \<and> uid ?u' \<notin> uid ` set d" by simp
    next
      assume "email ?u' \<noteq> email u"
      then show "column_accepts ''email'' (email ?u')" using accepted [of "''email''"] by simp
    next
      assume "hashed_password ?u' \<noteq> hashed_password u"
      then show "column_accepts ''hashed_password'' (hashed_password ?u')"
        using accepted [of "''hashed_password''"] by simp
    qed
    with assms(1) True have "update_user d user_id kw = (Inr (), ?d')"
      by (rule update_user_committed)
    with True show ?thesis by simp
  next
    case False
    then have "\<exists>k\<in>fst ` set kw. k \<notin> set VALID_FIELDS" by simp
    with assms(1) have "update_user d user_id kw = (Inl ValueError, ?d')"
      by (rule update_user_rejected)
    with False show ?thesis by simp
  qed
  have outcome: "fst (update_user d user_id kw) =
        (if \<forall>k\<in>fst ` set kw. k \<in> set VALID_FIELDS then Inr () else Inl ValueError)"
    by (simp add: result)
  have rows: "snd (update_user d user_id kw) = ?d'"
    by (simp add: result)
  have frame: "\<forall>c. c \<notin> fst ` set kw \<longrightarrow> getattr_user ?u' c = getattr_user u c"
    by (simp add: set_fields_frame)
  have assigned: "(\<forall>k\<in>fst ` set kw. k \<in> set VALID_FIELDS) \<longrightarrow>
               (\<forall>(k, v)\<in>set kw. getattr_user ?u' k = v)"
    using set_fields_assigned [OF assms(2)] by blast
  from whitelist outcome rows frame assigned show ?thesis by blast
qed

text \<open>
  The amended claim C4 at a store of two users, with changes of the first user to an
  identifier that the second does not have and to \<open>session_id\<close>.
\<close>

theorem update_user_whitelist_witness:
  "find_user_by
     [\<lparr>uid = VInt 1, email = VStr ''a@x.com'', hashed_password = VStr ''h1'',
       session_id = VNone, reset_token = VNone\<rparr>,
      \<lparr>uid = VInt 2, email = VStr ''b@x.com'', hashed_password = VStr ''h2'',
       session_id = VNone, reset_token = VNone\<rparr>] [(''id'', VInt 1)]
   = Inr \<lparr>uid = VInt 1, email = VStr ''a@x.com'', hashed_password = VStr ''h1'',
       session_id = VNone, reset_token = VNone\<rparr>
   \<and> distinct (map fst [(''id'', VInt 7), (''session_id'', VStr ''s1'')])
   \<and> column_accepts ''id'' (VInt 7) \<and> column_accepts ''session_id'' (VStr ''s1'')
   \<and> VInt 7 \<notin> uid ` set
     [\<lparr>uid = VInt 1, email = VStr ''a@x.com'', hashed_password = VStr ''h1'',
       session_id = VNone, reset_token = VNone\<rparr>,
      \<lparr>uid = VInt 2, email = VStr ''b@x.com'', hashed_password = VStr ''h2'',
       session_id = VNone, reset_token = VNone\<rparr>]
   \<and> fst (update_user
        [\<lparr>uid = VInt 1, email = VStr ''a@x.com'', hashed_password = VStr ''h1'',
          session_id = VNone, reset_token = VNone\<rparr>,
         \<lparr>uid = VInt 2, email = VStr ''b@x.com'', hashed_password = VStr ''h2'',
          session_id = VNone, reset_token = VNone\<rparr>]
        (VInt 1) [(''id'', VInt 7), (''session_id'', VStr ''s1'')]) = Inr ()"
proof -
  let ?a = "\<lparr>uid = VInt 1, email = VStr ''a@x.com'', hashed_password = VStr ''h1'',
       session_id = VNone, reset_token = VNone\<rparr>"
  let ?b = "\<lparr>uid = VInt 2, email = VStr ''b@x.com'', hashed_password = VStr ''h2'',
       session_id = VNone, reset_token = VNone\<rparr>"
  let ?kw = "[(''id'', VInt 7), (''session_id'', VStr ''s1'')]"
  have found: "find_user_by [?a, ?b] [(''id'', VInt 1)] = Inr ?a"
    by (simp add: find_user_by_def matches_def VALID_FIELDS_def getattr_user_def)
  have keys: "distinct (map fst ?kw)" by simp
  have col_id: "column_accepts ''id'' (VInt 7)" by (simp add: column_accepts_def)
  have col_sid: "column_accepts ''session_id'' (VStr ''s1'')" by (simp add: column_accepts_def)
  have cols: "\<forall>(k, v)\<in>set ?kw. column_accepts k v" using col_id col_sid by simp
  have free: "VInt 7 \<notin> uid ` set [?a, ?b]" by simp
  then have new_id: "\<forall>v. (''id'', v) \<in> set ?kw \<longrightarrow> v = VInt 1 \<or> v \<notin> uid ` set [?a, ?b]"
    by simp
  have "fst (update_user [?a, ?b] (VInt 1) ?kw) =
        (if \<forall>k\<in>fst ` set ?kw. k \<in> set VALID_FIELDS then Inr () else Inl ValueError)"
    using update_user_whitelist [OF found keys cols new_id] by blast
  then have "fst (update_user [?a, ?b] (VInt 1) ?kw) = Inr ()"
    by (simp add: VALID_FIELDS_def)
  with found keys col_id col_sid free show ?thesis by blast
qed

text \<open>
  Outside those conditions the commit fails: an update of the first user to the
  identifier of the second raises \<open>IntegrityError\<close> and changes nothing.
\<close>

lemma update_user_id_collision:
  "update_user
     [\<lparr>uid = VInt 1, email = VStr ''a@x.com'', hashed_password = VStr ''h1'',
       session_id = VNone, reset_token = VNone\<rparr>,
      \<lparr>uid = VInt 2, email = VStr ''b@x.com'', hashed_password = VStr ''h2'',
       session_id = VNone, reset_token = VNone\<rparr>]
     (VInt 1) [(''id'', VInt 2)]
   = (Inl IntegrityError,
      [\<lparr>uid = VInt 1, email = VStr ''a@x.com'', hashed_password = VStr ''h1'',
        session_id = VNone, reset_token = VNone\<rparr>,
       \<lparr>uid = VInt 2, email = VStr ''b@x.com'', hashed_password = VStr ''h2'',
        session_id = VNone, reset_token = VNone\<rparr>])"
  by (simp add: update_user_def find_user_by_def matches_def VALID_FIELDS_def
      getattr_user_def setattr_user_def commit_error_def)

section \<open>Redeeming a reset token\<close>

text \<open>
  Claim C5. A redemption is to succeed only for a token that a row carries, and a second
  redemption with the same token is to raise \<open>ValueError\<close>. For the token \<open>None\<close>, which
  the handler of PUT /reset_password passes when the form has no \<open>reset_token\<close> field,
  the code does otherwise: the lookup finds the one user who has no pending token,
  \<open>Auth.update_password\<close> returns normally with that user's password replaced, and a
  second call with \<open>None\<close> replaces it again.
\<close>

theorem update_password_none_token:
  "update_password
     [\<lparr>uid = VInt 1, email = VStr ''a@x.com'', hashed_password = VStr ''h1'',
       session_id = VNone, reset_token = VNone\<rparr>] (\<lambda>p. ''#'' @ p) VNone ''pw2''
   = (Inr (),
      [\<lparr>uid = VInt 1, email = VStr ''a@x.com'', hashed_password = VStr ''#pw2'',
        session_id = VNone, reset_token = VNone\<rparr>])
   \<and> update_password
     [\<lparr>uid = VInt 1, email = VStr ''a@x.com'', hashed_password = VStr ''#pw2'',
       session_id = VNone, reset_token = VNone\<rparr>] (\<lambda>p. ''#'' @ p) VNone ''pw3''
   = (Inr (),
      [\<lparr>uid = VInt 1, email = VStr ''a@x.com'', hashed_password = VStr ''#pw3'',
        session_id = VNone, reset_token = VNone\<rparr>])"
  by (simp add: update_password_def update_user_def find_user_by_def matches_def
      VALID_FIELDS_def getattr_user_def setattr_user_def commit_error_def)

text \<open>
  For every token other than \<open>None\<close>, in a store with distinct identifiers, a token
  is redeemed once: when exactly one row carries the token,
  \<open>Auth.update_password\<close> returns normally and that row, and no other, gets the hash of
  the new password and \<open>reset_token = None\<close>, both in the same update; a second call
  with the same token then raises \<open>ValueError\<close> and changes nothing. When no row carries
  the token, the call raises \<open>ValueError\<close> and the store is unchanged.
\<close>

lemma update_password_redeems_once:
  assumes "distinct (map uid d)" and "tok \<noteq> VNone"
  shows "(\<forall>u. filter (\<lambda>x. reset_token x = tok) d = [u] \<longrightarrow>
            update_password d hashpw tok pw =
              (Inr (), map (\<lambda>x. if uid x = uid u
                                 then u\<lparr>hashed_password := VStr (hashpw pw), reset_token := VNone\<rparr>
                                 else x) d)
          \<and> update_password (snd (update_password d hashpw tok pw)) hashpw' tok pw'
              = (Inl ValueError, snd (update_password d hashpw tok pw)))
       \<and> (tok \<notin> reset_token ` set d \<longrightarrow> update_password d hashpw tok pw = (Inl ValueError, d))"
proof (intro conjI allI impI)
  fix u
  assume bytok: "filter (\<lambda>x. reset_token x = tok) d = [u]"
  then have mem: "u \<in> set d" using filter_single_mem [OF bytok] by simp
  have byid: "filter (\<lambda>x. uid x = uid u) d = [u]"
    using assms(1) mem by (rule distinct_filter_single)
  let ?u' = "u\<lparr>hashed_password := VStr (hashpw pw), reset_token := VNone\<rparr>"
  let ?d' = "map (\<lambda>x. if uid x = uid u then ?u' else x) d"
  show first: "update_password d hashpw tok pw = (Inr (), ?d')"
    using bytok byid by (rule update_password_found)
  have owner: "\<forall>x\<in>set d. reset_token x = tok \<longrightarrow> uid x = uid u"
    using filter_single_unique [OF bytok] by blast
  have "filter (\<lambda>x. reset_token x = tok) ?d' = []"
    using owner by (rule filter_replace_none) (use assms(2) in auto)
  then have "update_password ?d' hashpw' tok pw' = (Inl ValueError, ?d')"
    by (rule update_password_unknown)
  then show "update_password (snd (update_password d hashpw tok pw)) hashpw' tok pw'
              = (Inl ValueError, snd (update_password d hashpw tok pw))"
    by (simp add: first)
next
  assume "tok \<notin> reset_token ` set d"
  then have "\<forall>x\<in>set d. reset_token x \<noteq> tok" by (metis imageI)
  then have "filter (\<lambda>x. reset_token x = tok) d = []" by (simp add: filter_empty_conv)
  then show "update_password d hashpw tok pw = (Inl ValueError, d)"
    by (rule update_password_unknown)
qed

text \<open>The same at a store of one user with a pending reset token \<open>r1\<close>.\<close>

lemma update_password_redeems_once_example:
  "distinct (map uid
     [\<lparr>uid = VInt 1, email = VStr ''a@x.com'', hashed_password = VStr ''h1'',
       session_id = VNone, reset_token = VStr ''r1''\<rparr>])
   \<and> VStr ''r1'' \<noteq> VNone
   \<and> update_password
     [\<lparr>uid = VInt 1, email = VStr ''a@x.com'', hashed_password = VStr ''h1'',
       session_id = VNone, reset_token = VStr ''r1''\<rparr>] (\<lambda>p. ''#'' @ p) (VStr ''r1'') ''pw2''
     = (Inr (),
        [\<lparr>uid = VInt 1, email = VStr ''a@x.com'', hashed_password = VStr ''#pw2'',
          session_id = VNone, reset_token = VNone\<rparr>])"
proof -
  let ?a = "\<lparr>uid = VInt 1, email = VStr ''a@x.com'', hashed_password = VStr ''h1'',
       session_id = VNone, reset_token = VStr ''r1''\<rparr>"
  have ids: "distinct (map uid [?a])" by simp
  have tok: "VStr ''r1'' \<noteq> VNone" by simp
  have bytok: "filter (\<lambda>x. reset_token x = VStr ''r1'') [?a] = [?a]" by simp
  from update_password_redeems_once [OF ids tok, of "\<lambda>p. ''#'' @ p" "''pw2''"] bytok
  have "update_password [?a] (\<lambda>p. ''#'' @ p) (VStr ''r1'') ''pw2'' =
          (Inr (), map (\<lambda>x. if uid x = uid ?a
                             then ?a\<lparr>hashed_password := VStr ((\<lambda>p. ''#'' @ p) ''pw2''),
                                     reset_token := VNone\<rparr>
                             else x) [?a])"
    by blast
  with ids show ?thesis by simp
qed

section \<open>Login\<close>

text \<open>
  Claim C6, as stated, fails: for a registered email and the password \<open>None\<close>, which the
  handler of POST /sessions passes when the form has no \<open>password\<close> field,
  \<open>Auth.valid_login\<close> does not return \<open>False\<close>; \<open>password.encode\<close> raises
  \<open>AttributeError\<close>.
\<close>

theorem valid_login_none_password:
  "valid_login
     [\<lparr>uid = VInt 1, email = VStr ''a@x.com'', hashed_password = VStr ''#pw1'',
       session_id = VNone, reset_token = VNone\<rparr>]
     (\<lambda>p h. Inr (h = ''#'' @ p)) (VStr ''a@x.com'') VNone
   = Inl AttributeError"
  by (simp add: valid_login_def find_user_by_def matches_def VALID_FIELDS_def getattr_user_def)

text \<open>
  Claim C6, amended. In a store with distinct emails whose hashed passwords are strings,
  and for a password that is a string on which \<open>checkpw\<close> answers against the stored
  hash of that email, \<open>Auth.valid_login\<close> returns \<open>True\<close> exactly when a row has the email
  and \<open>checkpw\<close> accepts the password against the hash of that row, and \<open>False\<close>
  otherwise. For an email that no row has it returns \<open>False\<close> whatever the password is.
\<close>

theorem valid_login_iff:
  assumes "distinct (map email d)" and "\<forall>u\<in>set d. \<exists>h. hashed_password u = VStr h"
    and "\<forall>u\<in>set d. \<forall>h. email u = em \<and> hashed_password u = VStr h \<longrightarrow> (\<exists>b. checkpw p h = Inr b)"
  shows "valid_login d checkpw em (VStr p) =
           Inr (\<exists>u\<in>set d. email u = em \<and> (\<exists>h. hashed_password u = VStr h \<and> checkpw p h = Inr True))
       \<and> (em \<notin> email ` set d \<longrightarrow> valid_login d checkpw em password = Inr False)"
proof
  from distinct_filter_le1 [OF assms(1), of em]
  consider (none) "filter (\<lambda>x. email x = em) d = []"
    | (one) u where "filter (\<lambda>x. email x = em) d = [u]" by blast
  then show "valid_login d checkpw em (VStr p) =
           Inr (\<exists>u\<in>set d. email u = em \<and> (\<exists>h. hashed_password u = VStr h \<and> checkpw p h = Inr True))"
  proof cases
    case none
    then have "\<forall>u\<in>set d. email u \<noteq> em" by (simp add: filter_empty_conv)
    with none show ?thesis by (auto simp add: valid_login_unknown)
  next
    case one
    then have mem: "u \<in> set d" and em: "email u = em"
      using filter_single_mem [OF one] by simp_all
    from assms(2) mem obtain h where h: "hashed_password u = VStr h" by blast
    from assms(3) mem em h obtain b where b: "checkpw p h = Inr b" by blast
    have only: "\<forall>x\<in>set d. email x = em \<longrightarrow> x = u"
      using filter_single_unique [OF one] by blast
    have "(\<exists>x\<in>set d. email x = em \<and> (\<exists>h'. hashed_password x = VStr h' \<and> checkpw p h' = Inr True))
            = b"
    proof
      assume "\<exists>x\<in>set d. email x = em \<and> (\<exists>h'. hashed_password x = VStr h' \<and> checkpw p h' = Inr True)"
      then obtain x h' where x: "x \<in> set d" "email x = em"
        and h': "hashed_password x = VStr h'" "checkpw p h' = Inr True" by blast
      from only x have "x = u" by blast
      with h h' b show b by simp
    next
      assume b
      with mem em h b show "\<exists>x\<in>set d. email x = em \<and> (\<exists>h'. hashed_password x = VStr h' \<and> checkpw p h' = Inr True)"
        by auto
    qed
    with one h b show ?thesis by (simp add: valid_login_found)
  qed
next
  show "em \<notin> email ` set d \<longrightarrow> valid_login d checkpw em password = Inr False"
  proof
    assume "em \<notin> email ` set d"
    then have "\<forall>x\<in>set d. email x \<noteq> em" by (metis imageI)
    then have "filter (\<lambda>x. email x = em) d = []" by (simp add: filter_empty_conv)
    then show "valid_login d checkpw em password = Inr False" by (rule valid_login_unknown)
  qed
qed

text \<open>
  The amended claim C6 at a store of one user: the right password, a wrong password, and
  an unknown email with no password.
\<close>

theorem valid_login_iff_witness:
  "distinct (map email
     [\<lparr>uid = VInt 1, email = VStr ''a@x.com'', hashed_password = VStr ''#pw1'',
       session_id = VNone, reset_token = VNone\<rparr>])
   \<and> valid_login
     [\<lparr>uid = VInt 1, email = VStr ''a@x.com'', hashed_password = VStr ''#pw1'',
       session_id = VNone, reset_token = VNone\<rparr>]
     (\<lambda>p h. Inr (h = ''#'' @ p)) (VStr ''a@x.com'') (VStr ''pw1'')
     = Inr True
   \<and> valid_login
     [\<lparr>uid = VInt 1, email = VStr ''a@x.com'', hashed_password = VStr ''#pw1'',
       session_id = VNone, reset_token = VNone\<rparr>]
     (\<lambda>p h. Inr (h = ''#'' @ p)) (VStr ''a@x.com'') (VStr ''wrong'')
     = Inr False
   \<and> valid_login
     [\<lparr>uid = VInt 1, email = VStr ''a@x.com'', hashed_password = VStr ''#pw1'',
       session_id = VNone, reset_token = VNone\<rparr>]
     (\<lambda>p h. Inr (h = ''#'' @ p)) (VStr ''z@x.com'') VNone
     = Inr False"
proof -
  let ?a = "\<lparr>uid = VInt 1, email = VStr ''a@x.com'', hashed_password = VStr ''#pw1'',
       session_id = VNone, reset_token = VNone\<rparr>"
  let ?c = "\<lambda>p h. Inr (h = ''#'' @ p) :: error + bool"
  have emails: "distinct (map email [?a])" by simp
  have hashes: "\<forall>u\<in>set [?a]. \<exists>h. hashed_password u = VStr h" by simp
  have answers: "\<forall>u\<in>set [?a]. \<forall>h. email u = em \<and> hashed_password u = VStr h \<longrightarrow>
      (\<exists>b. ?c p h = Inr b)" for em p
    by simp
  note login = valid_login_iff [where checkpw = ?c, OF emails hashes answers]
  have "valid_login [?a] ?c (VStr ''a@x.com'') (VStr ''pw1'') = Inr True"
    using login [of "VStr ''a@x.com''" "''pw1''"] by simp
  moreover have "valid_login [?a] ?c (VStr ''a@x.com'') (VStr ''wrong'') = Inr False"
    using login [of "VStr ''a@x.com''" "''wrong''"] by simp
  moreover have "valid_login [?a] ?c (VStr ''z@x.com'') VNone = Inr False"
    using login [of "VStr ''z@x.com''" "''pw1''" VNone] by simp
  ultimately show ?thesis using emails by blast
qed

section \<open>Registering twice\<close>

text \<open>
  Claim C7, as stated, fails for the empty email: \<open>DB.add_user\<close> returns \<open>None\<close> and adds
  nothing when the email is falsy, so both calls of \<open>Auth.register_user\<close> return \<open>None\<close>,
  the second raises nothing, and the store holds no row for that email.
\<close>

theorem register_user_empty_email_twice:
  "register_user [] (\<lambda>p. ''#'' @ p) (VStr []) ''pw1'' = (Inr None, [])
   \<and> register_user (snd (register_user [] (\<lambda>p. ''#'' @ p) (VStr []) ''pw1''))
        (\<lambda>p. ''#'' @ p) (VStr []) ''pw2'' = (Inr None, [])"
  by (simp add: register_user_def find_user_by_def matches_def VALID_FIELDS_def add_user_def)

text \<open>
  Claim C7, amended. For a truthy email and a non-empty hash, in a store with distinct
  emails: after one call of \<open>Auth.register_user\<close>, a second call for the same email
  raises \<open>ValueError\<close> and leaves the store as the first call left it, with exactly one
  row for that email; when the email was new, that row is the one the first call created
  and returned.
\<close>

theorem register_user_twice:
  assumes "truthy em" and "hashpw pw \<noteq> []" and "distinct (map email d)"
  shows "register_user (snd (register_user d hashpw em pw)) hashpw' em pw'
           = (Inl ValueError, snd (register_user d hashpw em pw))
       \<and> length (filter (\<lambda>x. email x = em) (snd (register_user d hashpw em pw))) = 1
       \<and> (em \<notin> email ` set d \<longrightarrow>
            (\<exists>u. register_user d hashpw em pw = (Inr (Some u), d @ [u]) \<and> email u = em))"
proof -
  let ?d1 = "snd (register_user d hashpw em pw)"
  let ?new = "\<lparr>uid = VInt (next_id d), email = em, hashed_password = VStr (hashpw pw),
               session_id = VNone, reset_token = VNone\<rparr>"
  have first_new: "register_user d hashpw em pw = (Inr (Some ?new), d @ [?new])"
    if "filter (\<lambda>x. email x = em) d = []"
    using that assms(1,2) by (simp add: register_user_new add_user_added)
  from distinct_filter_le1 [OF assms(3), of em]
  consider (none) "filter (\<lambda>x. email x = em) d = []"
    | (one) u where "filter (\<lambda>x. email x = em) d = [u]" by blast
  then have one_row: "\<exists>u. filter (\<lambda>x. email x = em) ?d1 = [u]"
  proof cases
    case none
    then show ?thesis by (simp add: first_new)
  next
    case one
    then show ?thesis by (simp add: register_user_exists)
  qed
  then obtain u where u: "filter (\<lambda>x. email x = em) ?d1 = [u]" by blast
  then have second: "register_user ?d1 hashpw' em pw' = (Inl ValueError, ?d1)"
    by (rule register_user_exists)
  have count: "length (filter (\<lambda>x. email x = em) ?d1) = 1"
    by (simp add: u)
  have fresh: "\<exists>u. register_user d hashpw em pw = (Inr (Some u), d @ [u]) \<and> email u = em"
    if "em \<notin> email ` set d"
  proof -
    from that have "\<forall>x\<in>set d. email x \<noteq> em" by (metis imageI)
    then have "filter (\<lambda>x. email x = em) d = []" by (simp add: filter_empty_conv)
    then have "register_user d hashpw em pw = (Inr (Some ?new), d @ [?new])"
      by (rule first_new)
    moreover have "email ?new = em" by simp
    ultimately show ?thesis by blast
  qed
  from second count fresh show ?thesis by blast
qed

text \<open>The amended claim C7 from the empty store.\<close>

theorem register_user_twice_witness:
  "truthy (VStr ''a@x.com'') \<and> ''#'' @ ''pw1'' \<noteq> [] \<and> distinct (map email [])
   \<and> snd (register_user [] (\<lambda>p. ''#'' @ p) (VStr ''a@x.com'') ''pw1'')
       = [\<lparr>uid = VInt 1, email = VStr ''a@x.com'', hashed_password = VStr ''#pw1'',
           session_id = VNone, reset_token = VNone\<rparr>]
   \<and> register_user
       [\<lparr>uid = VInt 1, email = VStr ''a@x.com'', hashed_password = VStr ''#pw1'',
         session_id = VNone, reset_token = VNone\<rparr>]
       (\<lambda>p. ''#'' @ p) (VStr ''a@x.com'') ''pw2''
       = (Inl ValueError,
          [\<lparr>uid = VInt 1, email = VStr ''a@x.com'', hashed_password = VStr ''#pw1'',
            session_id = VNone, reset_token = VNone\<rparr>])"
proof -
  let ?h = "\<lambda>p. ''#'' @ p"
  let ?a = "\<lparr>uid = VInt 1, email = VStr ''a@x.com'', hashed_password = VStr ''#pw1'',
           session_id = VNone, reset_token = VNone\<rparr>"
  have em: "truthy (VStr ''a@x.com'')" by simp
  have hash: "?h ''pw1'' \<noteq> []" by simp
  have emails: "distinct (map email [])" by simp
  have first: "snd (register_user [] ?h (VStr ''a@x.com'') ''pw1'') = [?a]"
    by (simp add: register_user_def find_user_by_def matches_def VALID_FIELDS_def add_user_def
        next_id_def Let_def)
  from register_user_twice [where em = "VStr ''a@x.com''" and hashpw = ?h and pw = "''pw1''"
      and d = "[]" and hashpw' = ?h and pw' = "''pw2''", OF em hash emails]
  have "register_user (snd (register_user [] ?h (VStr ''a@x.com'') ''pw1'')) ?h (VStr ''a@x.com'') ''pw2''
          = (Inl ValueError, snd (register_user [] ?h (VStr ''a@x.com'') ''pw1''))"
    by blast
  then have "register_user [?a] ?h (VStr ''a@x.com'') ''pw2'' = (Inl ValueError, [?a])"
    by (simp only: first)
  with first show ?thesis by simp
qed

section \<open>Destroying a session\<close>

text \<open>
  Claim C8. \<open>Auth.destroy_session\<close> never raises; a second call right after the first
  changes nothing; for a user whose session is already \<open>None\<close>, and for an identifier
  that no row has, the call changes nothing. When the user's row is the one row holding
  its session token, \<open>Auth.get_user_from_session_id\<close> of that token after
  \<open>destroy_session\<close> returns \<open>None\<close>.
\<close>

theorem destroy_session_then_resolve:
  "fst (destroy_session d i) = Inr ()
   \<and> destroy_session (snd (destroy_session d i)) i = (Inr (), snd (destroy_session d i))
   \<and> (\<forall>u. filter (\<lambda>x. uid x = i) d = [u] \<and> session_id u = VNone \<longrightarrow>
          destroy_session d i = (Inr (), d))
   \<and> (i \<notin> uid ` set d \<longrightarrow> destroy_session d i = (Inr (), d))
   \<and> (\<forall>u. filter (\<lambda>x. uid x = i) d = [u] \<and> filter (\<lambda>x. session_id x = session_id u) d = [u] \<longrightarrow>
          get_user_from_session_id (snd (destroy_session d i)) (session_id u) = Inr VNone)"
proof -
  let ?off = "\<lambda>u. u\<lparr>session_id := VNone\<rparr>"
  let ?upd = "\<lambda>u. map (\<lambda>x. if uid x = i then ?off u else x) d"
  have ok: "fst (destroy_session d i) = Inr ()"
  proof (cases rule: find_by_id_cases [of i d])
    case (found u)
    then show ?thesis by (simp add: destroy_session_found)
  next
    case missing
    then show ?thesis by (simp add: destroy_session_missing)
  qed
  have twice: "destroy_session (snd (destroy_session d i)) i = (Inr (), snd (destroy_session d i))"
  proof (cases rule: find_by_id_cases [of i d])
    case (found u)
    then have byid: "filter (\<lambda>x. uid x = i) d = [u]" .
    then have idu: "uid u = i" using filter_single_mem [of "\<lambda>x. uid x = i" d u] by simp
    have first: "destroy_session d i = (Inr (), ?upd u)"
      using byid by (rule destroy_session_found)
    have "filter (\<lambda>x. uid x = i) (?upd u) = [?off u]"
      using byid by (rule filter_replace_same) (simp add: idu)
    then have "destroy_session (?upd u) i
        = (Inr (), map (\<lambda>x. if uid x = i then ?off (?off u) else x) (?upd u))"
      by (rule destroy_session_found)
    moreover have "map (\<lambda>x. if uid x = i then ?off u else x) (?upd u) = ?upd u"
      by (rule map_replace_twice) (simp add: idu)
    ultimately show ?thesis by (simp add: first)
  next
    case missing
    then show ?thesis by (simp add: destroy_session_missing)
  qed
  have absent: "destroy_session d i = (Inr (), d)"
    if "filter (\<lambda>x. uid x = i) d = [u] \<and> session_id u = VNone" for u
  proof -
    from that have byid: "filter (\<lambda>x. uid x = i) d = [u]" and "?off u = u" by simp_all
    then show ?thesis by (simp add: destroy_session_found map_replace_id)
  qed
  have unknown: "destroy_session d i = (Inr (), d)" if "i \<notin> uid ` set d"
  proof -
    from that have "\<forall>x\<in>set d. uid x \<noteq> i" by (metis imageI)
    then have "filter (\<lambda>x. getattr_user x ''id'' = i) d = []" by (simp add: filter_empty_conv)
    then have "find_user_by d [(''id'', i)] = Inl NoResultFound"
      by (intro find_user_by_none) simp_all
    then show ?thesis by (rule destroy_session_missing)
  qed
  have resolve: "get_user_from_session_id (snd (destroy_session d i)) (session_id u) = Inr VNone"
    if "filter (\<lambda>x. uid x = i) d = [u] \<and> filter (\<lambda>x. session_id x = session_id u) d = [u]" for u
  proof (cases "session_id u = VNone")
    case True
    then show ?thesis by (simp add: get_user_from_session_id_def)
  next
    case False
    from that have byid: "filter (\<lambda>x. uid x = i) d = [u]"
      and bytok: "filter (\<lambda>x. session_id x = session_id u) d = [u]" by simp_all
    have idu: "uid u = i" using filter_single_mem [OF byid] by simp
    have owner: "\<forall>x\<in>set d. session_id x = session_id u \<longrightarrow> uid x = i"
      using filter_single_unique [OF bytok] idu by blast
    have "filter (\<lambda>x. session_id x = session_id u) (?upd u) = []"
      using owner by (rule filter_replace_none) (use False in auto)
    then have "get_user_from_session_id (?upd u) (session_id u) = Inr VNone"
      by (rule resolve_unknown)
    then show ?thesis by (simp add: destroy_session_found [OF byid])
  qed
  from ok twice absent unknown resolve show ?thesis by blast
qed

text \<open>Claim C8 at a store of one user with session token \<open>t0\<close>.\<close>

theorem destroy_session_then_resolve_witness:
  "filter (\<lambda>x. uid x = VInt 1)
     [\<lparr>uid = VInt 1, email = VStr ''a@x.com'', hashed_password = VStr ''h1'',
       session_id = VStr ''t0'', reset_token = VNone\<rparr>]
     = [\<lparr>uid = VInt 1, email = VStr ''a@x.com'', hashed_password = VStr ''h1'',
       session_id = VStr ''t0'', reset_token = VNone\<rparr>]
   \<and> filter (\<lambda>x. session_id x = VStr ''t0'')
     [\<lparr>uid = VInt 1, email = VStr ''a@x.com'', hashed_password = VStr ''h1'',
       session_id = VStr ''t0'', reset_token = VNone\<rparr>]
     = [\<lparr>uid = VInt 1, email = VStr ''a@x.com'', hashed_password = VStr ''h1'',
       session_id = VStr ''t0'', reset_token = VNone\<rparr>]
   \<and> get_user_from_session_id (snd (destroy_session
     [\<lparr>uid = VInt 1, email = VStr ''a@x.com'', hashed_password = VStr ''h1'',
       session_id = VStr ''t0'', reset_token = VNone\<rparr>] (VInt 1))) (VStr ''t0'') = Inr VNone"
proof -
  let ?a = "\<lparr>uid = VInt 1, email = VStr ''a@x.com'', hashed_password = VStr ''h1'',
       session_id = VStr ''t0'', reset_token = VNone\<rparr>"
  have byid: "filter (\<lambda>x. uid x = VInt 1) [?a] = [?a]" by simp
  have bytok: "filter (\<lambda>x. session_id x = session_id ?a) [?a] = [?a]" by simp
  from destroy_session_then_resolve [of "[?a]" "VInt 1"] byid bytok
  have "get_user_from_session_id (snd (destroy_session [?a] (VInt 1))) (session_id ?a) = Inr VNone"
    by blast
  with byid bytok show ?thesis by simp
qed

section \<open>Creating a session, then resolving it\<close>

text \<open>
  Claim C9. In a store with distinct identifiers and for a generated token \<open>T\<close> that no
  row holds yet: when exactly one row has the email, \<open>Auth.create_session\<close> returns
  \<open>T\<close>, the row of that user then holds \<open>T\<close> as its session, and
  \<open>Auth.get_user_from_session_id\<close> of \<open>T\<close> returns that email; for an email that no row
  has, \<open>create_session\<close> returns \<open>None\<close> and changes nothing; and resolving \<open>None\<close>
  returns \<open>None\<close>.
\<close>

theorem create_session_then_resolve:
  assumes "distinct (map uid d)" and "VStr T \<notin> session_id ` set d"
  shows "(\<forall>u. filter (\<lambda>x. email x = em) d = [u] \<longrightarrow>
            fst (create_session d T em) = Inr (Some T)
          \<and> find_user_by (snd (create_session d T em)) [(''id'', uid u)]
              = Inr (u\<lparr>session_id := VStr T\<rparr>)
          \<and> get_user_from_session_id (snd (create_session d T em)) (VStr T) = Inr em)
       \<and> (em \<notin> email ` set d \<longrightarrow> create_session d T em = (Inr None, d))
       \<and> get_user_from_session_id d VNone = Inr VNone"
proof (intro conjI allI impI)
  fix u
  assume reg: "filter (\<lambda>x. email x = em) d = [u]"
  then have mem: "u \<in> set d" and em: "email u = em"
    using filter_single_mem [of "\<lambda>x. email x = em" d u] by simp_all
  have byid: "filter (\<lambda>x. uid x = uid u) d = [u]"
    using assms(1) mem by (rule distinct_filter_single)
  let ?u' = "u\<lparr>session_id := VStr T\<rparr>"
  let ?d' = "map (\<lambda>x. if uid x = uid u then ?u' else x) d"
  have cs: "create_session d T em = (Inr (Some T), ?d')"
    using reg byid by (rule create_session_found)
  show "fst (create_session d T em) = Inr (Some T)" by (simp add: cs)
  have "filter (\<lambda>x. uid x = uid u) ?d' = [?u']"
    using byid by (rule filter_replace_same) simp
  then show "find_user_by (snd (create_session d T em)) [(''id'', uid u)] = Inr ?u'"
    by (simp add: cs find_by_id)
  have fresh: "\<forall>x\<in>set d. session_id x = VStr T \<longrightarrow> uid x = uid u"
    using assms(2) by (metis imageI)
  have "filter (\<lambda>x. session_id x = VStr T) ?d' = [?u']"
    using byid fresh by (rule filter_replace_single) simp
  then have "get_user_from_session_id ?d' (VStr T) = Inr (email ?u')"
    by (intro resolve_found) simp_all
  then show "get_user_from_session_id (snd (create_session d T em)) (VStr T) = Inr em"
    by (simp add: cs em)
next
  assume "em \<notin> email ` set d"
  then have "\<forall>x\<in>set d. email x \<noteq> em" by (metis imageI)
  then have "filter (\<lambda>x. email x = em) d = []" by (simp add: filter_empty_conv)
  then show "create_session d T em = (Inr None, d)" by (rule create_session_unknown)
next
  show "get_user_from_session_id d VNone = Inr VNone"
    by (simp add: get_user_from_session_id_def)
qed

text \<open>Claim C9 at a store of two users, creating a session for the first.\<close>

theorem create_session_then_resolve_witness:
  "distinct (map uid
     [\<lparr>uid = VInt 1, email = VStr ''a@x.com'', hashed_password = VStr ''h1'',
       session_id = VStr ''t0'', reset_token = VNone\<rparr>,
      \<lparr>uid = VInt 2, email = VStr ''b@x.com'', hashed_password = VStr ''h2'',
       session_id = VNone, reset_token = VNone\<rparr>])
   \<and> VStr ''t1'' \<notin> session_id ` set
     [\<lparr>uid = VInt 1, email = VStr ''a@x.com'', hashed_password = VStr ''h1'',
       session_id = VStr ''t0'', reset_token = VNone\<rparr>,
      \<lparr>uid = VInt 2, email = VStr ''b@x.com'', hashed_password = VStr ''h2'',
       session_id = VNone, reset_token = VNone\<rparr>]
   \<and> get_user_from_session_id (snd (create_session
     [\<lparr>uid = VInt 1, email = VStr ''a@x.com'', hashed_password = VStr ''h1'',
       session_id = VStr ''t0'', reset_token = VNone\<rparr>,
      \<lparr>uid = VInt 2, email = VStr ''b@x.com'', hashed_password = VStr ''h2'',
       session_id = VNone, reset_token = VNone\<rparr>] ''t1'' (VStr ''a@x.com''))) (VStr ''t1'')
     = Inr (VStr ''a@x.com'')"
proof -
  let ?a = "\<lparr>uid = VInt 1, email = VStr ''a@x.com'', hashed_password = VStr ''h1'',
       session_id = VStr ''t0'', reset_token = VNone\<rparr>"
  let ?b = "\<lparr>uid = VInt 2, email = VStr ''b@x.com'', hashed_password = VStr ''h2'',
       session_id = VNone, reset_token = VNone\<rparr>"
  have ids: "distinct (map uid [?a, ?b])" by simp
  have fresh: "VStr ''t1'' \<notin> session_id ` set [?a, ?b]" by simp
  have reg: "filter (\<lambda>x. email x = VStr ''a@x.com'') [?a, ?b] = [?a]" by simp
  from create_session_then_resolve [OF ids fresh, of "VStr ''a@x.com''"] reg
  have "get_user_from_session_id (snd (create_session [?a, ?b] ''t1'' (VStr ''a@x.com'')))
          (VStr ''t1'') = Inr (VStr ''a@x.com'')"
    by blast
  with ids fresh show ?thesis by blast
qed

section \<open>The reset request and the session token\<close>

text \<open>
  Claim C10. In a store with distinct identifiers, the handler of POST /reset_password,
  called for the email of exactly one row, leaves the store with that row's session
  token overwritten by the token that \<open>create_session\<close> generated, every other row
  as it was; so the store differs from the one before whenever the new token differs from
  the old one.
\<close>

theorem reset_request_overwrites_session:
  assumes "distinct (map uid d)" and "filter (\<lambda>x. email x = em) d = [u]"
  shows "snd (route_get_reset_password_token d T em)
           = map (\<lambda>x. if uid x = uid u then u\<lparr>session_id := VStr T\<rparr> else x) d
       \<and> find_user_by (snd (route_get_reset_password_token d T em)) [(''id'', uid u)]
           = Inr (u\<lparr>session_id := VStr T\<rparr>)
       \<and> (session_id u \<noteq> VStr T \<longrightarrow> snd (route_get_reset_password_token d T em) \<noteq> d)"
proof -
  have mem: "u \<in> set d"
    using filter_single_mem [OF assms(2)] by simp
  have byid: "filter (\<lambda>x. uid x = uid u) d = [u]"
    using assms(1) mem by (rule distinct_filter_single)
  let ?u' = "u\<lparr>session_id := VStr T\<rparr>"
  let ?d' = "map (\<lambda>x. if uid x = uid u then ?u' else x) d"
  have cs: "create_session d T em = (Inr (Some T), ?d')"
    using assms(2) byid by (rule create_session_found)
  have rows: "snd (route_get_reset_password_token d T em) = ?d'"
    by (simp add: route_get_reset_password_token_def cs get_reset_password_token_def)
  have "filter (\<lambda>x. uid x = uid u) ?d' = [?u']"
    using byid by (rule filter_replace_same) simp
  then have row: "find_user_by ?d' [(''id'', uid u)] = Inr ?u'"
    by (simp add: find_by_id)
  have changed: "?d' \<noteq> d" if "session_id u \<noteq> VStr T"
  proof
    assume "?d' = d"
    with row have "find_user_by d [(''id'', uid u)] = Inr ?u'" by simp
    then have "[?u'] = [u]" using byid by (simp add: find_by_id)
    then have "session_id ?u' = session_id u" by simp
    with that show False by simp
  qed
  from rows row changed show ?thesis by simp
qed

text \<open>Claim C10 at a store of one user whose session was \<open>t0\<close>.\<close>

theorem reset_request_overwrites_session_witness:
  "distinct (map uid
     [\<lparr>uid = VInt 1, email = VStr ''a@x.com'', hashed_password = VStr ''h1'',
       session_id = VStr ''t0'', reset_token = VNone\<rparr>])
   \<and> filter (\<lambda>x. email x = VStr ''a@x.com'')
     [\<lparr>uid = VInt 1, email = VStr ''a@x.com'', hashed_password = VStr ''h1'',
       session_id = VStr ''t0'', reset_token = VNone\<rparr>]
     = [\<lparr>uid = VInt 1, email = VStr ''a@x.com'', hashed_password = VStr ''h1'',
       session_id = VStr ''t0'', reset_token = VNone\<rparr>]
   \<and> snd (route_get_reset_password_token
     [\<lparr>uid = VInt 1, email = VStr ''a@x.com'', hashed_password = VStr ''h1'',
       session_id = VStr ''t0'', reset_token = VNone\<rparr>] ''t1'' (VStr ''a@x.com''))
     = [\<lparr>uid = VInt 1, email = VStr ''a@x.com'', hashed_password = VStr ''h1'',
       session_id = VStr ''t1'', reset_token = VNone\<rparr>]"
proof -
  let ?a = "\<lparr>uid = VInt 1, email = VStr ''a@x.com'', hashed_password = VStr ''h1'',
       session_id = VStr ''t0'', reset_token = VNone\<rparr>"
  have ids: "distinct (map uid [?a])" by simp
  have reg: "filter (\<lambda>x. email x = VStr ''a@x.com'') [?a] = [?a]" by simp
  from reset_request_overwrites_session [OF ids reg, of "''t1''"]
  have "snd (route_get_reset_password_token [?a] ''t1'' (VStr ''a@x.com''))
          = map (\<lambda>x. if uid x = uid ?a then ?a\<lparr>session_id := VStr ''t1''\<rparr> else x) [?a]"
    by blast
  then have "snd (route_get_reset_password_token [?a] ''t1'' (VStr ''a@x.com''))
          = [?a\<lparr>session_id := VStr ''t1''\<rparr>]"
    by simp
  with ids reg show ?thesis by simp
qed

end
